theory Spec2Isabelle
  imports Complex_Main "HOL-Library.AList"
begin

section \<open>Terrain boundary extraction and safe boundary curve\<close>

text \<open>
  The development embeds the three heightmap scripts of the repository:
  \<^item> \<^verbatim>\<open>extract_bounds_rgb.py\<close>: exact per-column boundary, Fourier fit, safety shift;
  \<^item> \<^verbatim>\<open>extract_bounds_fast.py\<close>: topmost opaque byte of every tenth column of a PGM dump;
  \<^item> \<^verbatim>\<open>extract_bounds.py\<close>: the same through one pixel query per sample.

  Conventions. Python integers that index pixels are \<open>nat\<close>; a value that the source
  obtains by subtraction (\<^verbatim>\<open>height - 1\<close>) is \<open>int\<close>. An exception of the source is a value
  \<open>Inl e\<close> of the type \<open>error + 'a\<close>. The script computes the curve in 64-bit floats; the
  model computes it in the reals, so it tells which operations are performed on which
  operands and settles comparisons that hold with room to spare. It says nothing about
  the last bits of a float result.
  Printing and the JSON dump are left out: they read the data and never change it.
\<close>

datatype error = ValueError | TypeError | ZeroDivisionError | IndexError


subsection \<open>\<^verbatim>\<open>extract_bounds_rgb.py\<close>: pixel classification\<close>

text \<open>
  A pixel is the tuple of band values that \<^verbatim>\<open>img.getpixel\<close> returns for a multi-band
  image: four entries for RGBA, three for RGB.
\<close>

type_synonym pixel = "int list"

definition ALPHA_THRESHOLD :: int where
  "ALPHA_THRESHOLD = 50"

definition is_transparent :: "pixel \<Rightarrow> bool" where
  "is_transparent pixel =
     (if length pixel = 4 then (case pixel of [r, g, b, a] \<Rightarrow> a \<le> ALPHA_THRESHOLD)
      else False)"

definition is_opaque :: "pixel \<Rightarrow> bool" where
  "is_opaque pixel =
     (if length pixel = 4 then (case pixel of [r, g, b, a] \<Rightarrow> a > ALPHA_THRESHOLD)
      else True)"


subsection \<open>\<^verbatim>\<open>extract_bounds_rgb.py\<close>: the column scan of \<^verbatim>\<open>main\<close>\<close>

text \<open>
  The image is its size and the accessor \<^verbatim>\<open>img.getpixel((x, y))\<close>. The inner loop
  \<^verbatim>\<open>for y in range(height - 1)\<close> stops at the first row that is transparent with an
  opaque row below and yields \<^verbatim>\<open>y + 1\<close>; running off the end leaves \<^verbatim>\<open>boundary_y\<close> at
  \<^verbatim>\<open>None\<close>. Python's \<^verbatim>\<open>range(height - 1)\<close> is empty for \<^verbatim>\<open>height\<close> 0 and 1, as
  \<open>[0..<height - 1]\<close> is with truncating subtraction.
\<close>

fun boundary_scan :: "(nat \<times> nat \<Rightarrow> pixel) \<Rightarrow> nat \<Rightarrow> nat list \<Rightarrow> nat option" where
  "boundary_scan getpixel x [] = None"
| "boundary_scan getpixel x (y # ys) =
     (let pixel_current = getpixel (x, y);
          pixel_below = getpixel (x, y + 1)
      in if is_transparent pixel_current \<and> is_opaque pixel_below then Some (y + 1)
         else boundary_scan getpixel x ys)"

text \<open>
  The fallback loop \<^verbatim>\<open>for y in range(height)\<close> appends the first opaque row and breaks;
  when no row is opaque it appends nothing.
\<close>

fun fallback_scan :: "(nat \<times> nat \<Rightarrow> pixel) \<Rightarrow> nat \<Rightarrow> nat list \<Rightarrow> nat option" where
  "fallback_scan getpixel x [] = None"
| "fallback_scan getpixel x (y # ys) =
     (if is_opaque (getpixel (x, y)) then Some y else fallback_scan getpixel x ys)"

text \<open>
  One pass of the outer loop body: \<^verbatim>\<open>terrain_curve\<close> before, \<^verbatim>\<open>terrain_curve\<close> after.
  A point \<^verbatim>\<open>{"x": x, "y": y}\<close> is the pair \<open>(x, y)\<close>.
\<close>

definition scan_column ::
  "(nat \<times> nat \<Rightarrow> pixel) \<Rightarrow> nat \<Rightarrow> (nat \<times> nat) list \<Rightarrow> nat \<Rightarrow> (nat \<times> nat) list" where
  "scan_column getpixel height terrain_curve x =
     (case boundary_scan getpixel x [0..<height - 1] of
        Some boundary_y \<Rightarrow> terrain_curve @ [(x, boundary_y)]
      | None \<Rightarrow>
          (case fallback_scan getpixel x [0..<height] of
             Some y \<Rightarrow> terrain_curve @ [(x, y)]
           | None \<Rightarrow> terrain_curve))"

definition extract_terrain_curve ::
  "nat \<Rightarrow> nat \<Rightarrow> (nat \<times> nat \<Rightarrow> pixel) \<Rightarrow> (nat \<times> nat) list" where
  "extract_terrain_curve width height getpixel =
     foldl (scan_column getpixel height) [] [0..<width]"


subsection \<open>\<^verbatim>\<open>extract_bounds_rgb.py\<close>: the curve and the safety shift of \<^verbatim>\<open>main\<close>\<close>

text \<open>
  \<^verbatim>\<open>fourier_curve\<close> is a closure over the image width. With \<^verbatim>\<open>width\<close> 0 the division
  raises; the call below returns the error before the body is used. The body is the real
  function that the script's float expression approximates.
\<close>

definition fourier_curve ::
  "nat \<Rightarrow> real \<Rightarrow> real \<Rightarrow> real \<Rightarrow> real \<Rightarrow> real \<Rightarrow> real \<Rightarrow> real \<Rightarrow> real \<Rightarrow> real" where
  "fourier_curve width x a0 a1 b1 a2 b2 a3 b3 =
     (let freq = 2 * pi / real width
      in a0 +
         a1 * cos (freq * x) + b1 * sin (freq * x) +
         a2 * cos (2 * freq * x) + b2 * sin (2 * freq * x) +
         a3 * cos (3 * freq * x) + b3 * sin (3 * freq * x))"

text \<open>
  The call \<^verbatim>\<open>fourier_curve(x_data, *params)\<close>: the array of coefficients is unpacked
  into the seven parameters (any other length is a \<^verbatim>\<open>TypeError\<close>), and numpy applies
  the body to every entry of \<^verbatim>\<open>x_data\<close>.
\<close>

definition fourier_curve_star :: "nat \<Rightarrow> real list \<Rightarrow> real list \<Rightarrow> error + real list" where
  "fourier_curve_star width x_data params =
     (if length params \<noteq> 7 then Inl TypeError
      else if width = 0 then Inl ZeroDivisionError
      else Inr (map (\<lambda>x. fourier_curve width x (params ! 0) (params ! 1) (params ! 2)
                          (params ! 3) (params ! 4) (params ! 5) (params ! 6)) x_data))"

text \<open>\<^verbatim>\<open>np.max\<close> of an array; the empty array raises \<^verbatim>\<open>ValueError\<close>.\<close>

definition np_max :: "real list \<Rightarrow> error + real" where
  "np_max xs = (case xs of [] \<Rightarrow> Inl ValueError | x # rest \<Rightarrow> Inr (fold max rest x))"

text \<open>
  Lines 105 to 146 of \<^verbatim>\<open>main\<close>. The inputs are the image width, the extracted
  \<^verbatim>\<open>terrain_curve\<close> and \<^verbatim>\<open>params\<close>, the coefficients that scipy's \<^verbatim>\<open>curve_fit\<close>
  returned (the solver is a library call and stays outside the model). The result is
  \<^verbatim>\<open>safe_params\<close> together with the truth value that the script prints as
  \<^verbatim>\<open>All points above terrain\<close>; after the print the script goes on to emit the formula
  with \<^verbatim>\<open>safe_params\<close> whatever that value is. The two clearance figures are printed
  only and are left out. (In \<^verbatim>\<open>main\<close> an empty \<^verbatim>\<open>terrain_curve\<close> does not get this far:
  \<^verbatim>\<open>min(y_values)\<close> has raised the same \<^verbatim>\<open>ValueError\<close> before.)
\<close>

definition safe_boundary ::
  "nat \<Rightarrow> (nat \<times> nat) list \<Rightarrow> real list \<Rightarrow> error + real list \<times> bool" where
  "safe_boundary width terrain_curve params =
     (let x_data = map (\<lambda>p. real (fst p)) terrain_curve;
          y_data = map (\<lambda>p. real (snd p)) terrain_curve
      in case fourier_curve_star width x_data params of
           Inl e \<Rightarrow> Inl e
         | Inr y_fitted \<Rightarrow>
             (case np_max (map2 (-) y_data y_fitted) of
                Inl e \<Rightarrow> Inl e
              | Inr max_error \<Rightarrow>
                  (let safety_margin = max_error + 5;
                       safe_params = params[0 := params ! 0 - safety_margin]
                   in case fourier_curve_star width x_data safe_params of
                        Inl e \<Rightarrow> Inl e
                      | Inr y_safe \<Rightarrow> Inr (safe_params, list_all2 (\<le>) y_safe y_data))))"


subsection \<open>Python's \<^verbatim>\<open>range(start, stop, step)\<close>\<close>

text \<open>
  The values \<^verbatim>\<open>start, start + step, ...\<close> below \<^verbatim>\<open>stop\<close>. Both callers pass the
  constant step 10; Python refuses step 0, where this function returns the empty list.
\<close>

function range_step :: "nat \<Rightarrow> nat \<Rightarrow> nat \<Rightarrow> nat list" where
  "range_step start stop step =
     (if 0 < step \<and> start < stop then start # range_step (start + step) stop step else [])"
  by pat_completeness auto
termination
  by (relation "measure (\<lambda>(start, stop, step). stop - start)") auto

declare range_step.simps [simp del]


subsection \<open>\<^verbatim>\<open>extract_bounds_fast.py\<close>\<close>

text \<open>
  The input is what the header of the PGM file gave (\<^verbatim>\<open>width\<close>, \<^verbatim>\<open>height\<close>) and the
  bytes read after it (\<^verbatim>\<open>pixels\<close>, one number 0..255 per byte). Indexing \<^verbatim>\<open>pixels\<close>
  past its end raises \<^verbatim>\<open>IndexError\<close>.
\<close>

definition SAMPLE_INTERVAL_fast :: nat where
  "SAMPLE_INTERVAL_fast = 10"

definition ALPHA_THRESHOLD_fast :: nat where
  "ALPHA_THRESHOLD_fast = 128"

fun build_row :: "nat list \<Rightarrow> nat \<Rightarrow> nat \<Rightarrow> nat list \<Rightarrow> nat list \<Rightarrow> error + nat list" where
  "build_row pixels width y row [] = Inr row"
| "build_row pixels width y row (x # xs) =
     (let idx = y * width + x
      in if idx < length pixels then build_row pixels width y (row @ [pixels ! idx]) xs
         else Inl IndexError)"

fun build_alpha :: "nat list \<Rightarrow> nat \<Rightarrow> nat list list \<Rightarrow> nat list \<Rightarrow> error + nat list list" where
  "build_alpha pixels width alpha [] = Inr alpha"
| "build_alpha pixels width alpha (y # ys) =
     (case build_row pixels width y [] [0..<width] of
        Inl e \<Rightarrow> Inl e
      | Inr row \<Rightarrow> build_alpha pixels width (alpha @ [row]) ys)"

text \<open>
  The scan \<^verbatim>\<open>for y in range(height)\<close> of one sampled column: \<^verbatim>\<open>top_y\<close> starts at
  \<^verbatim>\<open>height - 1\<close> and is overwritten by the first row above the threshold.
\<close>

fun top_scan :: "nat list list \<Rightarrow> nat \<Rightarrow> int \<Rightarrow> nat list \<Rightarrow> int" where
  "top_scan alpha x top_y [] = top_y"
| "top_scan alpha x top_y (y # ys) =
     (if alpha ! y ! x > ALPHA_THRESHOLD_fast then int y else top_scan alpha x top_y ys)"

text \<open>
  \<^verbatim>\<open>heightmap\<close> is a dict; an association list in insertion order stands for it, and
  \<^verbatim>\<open>heightmap[x] = top_y\<close> is \<^const>\<open>AList.update\<close> (replace in place, or append).
\<close>

definition sample_column ::
  "nat list list \<Rightarrow> nat \<Rightarrow> (nat \<times> int) list \<Rightarrow> nat \<Rightarrow> (nat \<times> int) list" where
  "sample_column alpha height heightmap x =
     (let top_y = top_scan alpha x (int height - 1) [0..<height]
      in AList.update x top_y heightmap)"

definition main_fast :: "nat \<Rightarrow> nat \<Rightarrow> nat list \<Rightarrow> error + (nat \<times> int) list" where
  "main_fast width height pixels =
     (case build_alpha pixels width [] [0..<height] of
        Inl e \<Rightarrow> Inl e
      | Inr alpha \<Rightarrow>
          Inr (foldl (sample_column alpha height) [] (range_step 0 width SAMPLE_INTERVAL_fast)))"


subsection \<open>\<^verbatim>\<open>extract_bounds.py\<close>\<close>

text \<open>
  \<^verbatim>\<open>get_pixel_alpha\<close> asks an external program for one pixel and parses the answer;
  here it is a parameter, the alpha value at \<open>x\<close> and \<open>y\<close>.
\<close>

definition WIDTH :: nat where
  "WIDTH = 640"

definition HEIGHT :: nat where
  "HEIGHT = 384"

definition SAMPLE_INTERVAL :: nat where
  "SAMPLE_INTERVAL = 10"

fun opaque_scan :: "(nat \<Rightarrow> nat \<Rightarrow> real) \<Rightarrow> nat \<Rightarrow> nat list \<Rightarrow> nat option" where
  "opaque_scan get_pixel_alpha x [] = None"
| "opaque_scan get_pixel_alpha x (y # ys) =
     (let alpha = get_pixel_alpha x y
      in if alpha > 0.5 then Some y else opaque_scan get_pixel_alpha x ys)"

definition find_top_opaque_pixel :: "(nat \<Rightarrow> nat \<Rightarrow> real) \<Rightarrow> nat \<Rightarrow> int" where
  "find_top_opaque_pixel get_pixel_alpha x =
     (case opaque_scan get_pixel_alpha x [0..<HEIGHT] of
        Some y \<Rightarrow> int y
      | None \<Rightarrow> int HEIGHT - 1)"

definition main_bounds :: "(nat \<Rightarrow> nat \<Rightarrow> real) \<Rightarrow> (nat \<times> int) list" where
  "main_bounds get_pixel_alpha =
     foldl (\<lambda>heightmap x.
              let top_y = find_top_opaque_pixel get_pixel_alpha x
              in AList.update x top_y heightmap)
       [] (range_step 0 WIDTH SAMPLE_INTERVAL)"


subsection \<open>Vocabulary of the statements\<close>

text \<open>
  Row \<open>y\<close> of column \<open>x\<close> is a transition when it is transparent and the row below it is
  opaque.
\<close>

definition transition_at :: "(nat \<times> nat \<Rightarrow> pixel) \<Rightarrow> nat \<Rightarrow> nat \<Rightarrow> bool" where
  "transition_at getpixel x y =
     (is_transparent (getpixel (x, y)) \<and> is_opaque (getpixel (x, y + 1)))"

text \<open>The curve of a coefficient array at one abscissa.\<close>

definition evaluate :: "nat \<Rightarrow> real list \<Rightarrow> real \<Rightarrow> real" where
  "evaluate width params x =
     fourier_curve width x (params ! 0) (params ! 1) (params ! 2)
       (params ! 3) (params ! 4) (params ! 5) (params ! 6)"

text \<open>
  The residuals \<open>y\<^sub>i - evaluate(fitted, x\<^sub>i)\<close> of a coefficient array on a boundary set.
\<close>

definition residuals :: "nat \<Rightarrow> real list \<Rightarrow> (nat \<times> nat) list \<Rightarrow> real set" where
  "residuals width params terrain_curve =
     (\<lambda>p. real (snd p) - evaluate width params (real (fst p))) ` set terrain_curve"

text \<open>
  The quantity that a least-squares fit of the curve to a boundary set minimises.
\<close>

definition sum_squares :: "nat \<Rightarrow> (nat \<times> nat) list \<Rightarrow> real list \<Rightarrow> real" where
  "sum_squares width terrain_curve params =
     (\<Sum>p\<leftarrow>terrain_curve. (real (snd p) - evaluate width params (real (fst p)))\<^sup>2)"

text \<open>
  A boundary set used as an example below: 12 columns, row 10 in every third column and
  row 40 in the others.
\<close>

definition hills_curve :: "(nat \<times> nat) list" where
  "hills_curve =
     [(0, 10), (1, 40), (2, 40), (3, 10), (4, 40), (5, 40),
      (6, 10), (7, 40), (8, 40), (9, 10), (10, 40), (11, 40)]"


section \<open>Properties\<close>

subsection \<open>Pixel classification\<close>

lemma is_opaque_four:
  "is_opaque [r, g, b, a] = (ALPHA_THRESHOLD < a)"
  by (simp add: is_opaque_def)

lemma is_transparent_four:
  "is_transparent [r, g, b, a] = (a \<le> ALPHA_THRESHOLD)"
  by (simp add: is_transparent_def)

lemma length_four_cases:
  assumes "length (p :: 'a list) = 4"
  obtains r g b a where "p = [r, g, b, a]"
proof -
  from assms obtain r p1 where p: "p = r # p1" and l1: "length p1 = 3"
    by (cases p) auto
  from l1 obtain g p2 where p1: "p1 = g # p2" and l2: "length p2 = 2"
    by (cases p1) auto
  from l2 obtain b p3 where p2: "p2 = b # p3" and l3: "length p3 = 1"
    by (cases p2) auto
  from l3 obtain a where p3: "p3 = [a]"
    by (cases p3) auto
  show thesis using that p p1 p2 p3 by simp
qed

lemma is_opaque_iff: "is_opaque p = (\<not> is_transparent p)"
proof (cases "length p = 4")
  case True
  then obtain r g b a where "p = [r, g, b, a]"
    by (rule length_four_cases)
  then show ?thesis
    by (auto simp: is_opaque_four is_transparent_four)
next
  case False
  then show ?thesis
    by (simp add: is_opaque_def is_transparent_def)
qed

text \<open>
  C9. Every pixel tuple is classified as exactly one of opaque and transparent:
  \<open>is_opaque\<close> is the negation of \<open>is_transparent\<close>. A tuple whose length is not 4
  (no alpha band) is opaque and not transparent, whatever its band values.
\<close>

theorem classification_dichotomy:
  "is_opaque p = (\<not> is_transparent p) \<and>
   (length p \<noteq> 4 \<longrightarrow> is_opaque p \<and> \<not> is_transparent p)"
  by (simp add: is_opaque_iff) (simp add: is_transparent_def)

theorem classification_dichotomy_witness:
  "is_opaque [10, 20, 30] \<and> \<not> is_transparent [10, 20, 30] \<and>
   is_opaque [0, 0, 0, 51] \<and> \<not> is_transparent [0, 0, 0, 51] \<and>
   \<not> is_opaque [0, 0, 0, 50] \<and> is_transparent [0, 0, 0, 50]"
  using classification_dichotomy [of "[10, 20, 30]"]
    classification_dichotomy [of "[0, 0, 0, 51]"]
    classification_dichotomy [of "[0, 0, 0, 50]"]
  by (simp add: is_transparent_def ALPHA_THRESHOLD_def)


subsection \<open>The two scans of a column (\<^verbatim>\<open>extract_bounds_rgb.py\<close>)\<close>

lemma boundary_scan_None_iff:
  "boundary_scan g x ys = None \<longleftrightarrow> (\<forall>y\<in>set ys. \<not> transition_at g x y)"
  by (induction ys) (auto simp: transition_at_def Let_def)

lemma boundary_scan_first:
  "boundary_scan g x (ys @ y # zs) = Some (y + 1)"
  if "\<forall>y'\<in>set ys. \<not> transition_at g x y'" and "transition_at g x y"
  using that by (induction ys) (auto simp: transition_at_def Let_def)

lemma upt_split_at:
  "y < n \<Longrightarrow> [0..<n] = [0..<y] @ y # [Suc y..<n]"
  using upt_add_eq_append [of 0 y "n - y"] by (simp add: upt_conv_Cons)

lemma fallback_scan_None_iff:
  "fallback_scan g x ys = None \<longleftrightarrow> (\<forall>y\<in>set ys. \<not> is_opaque (g (x, y)))"
  by (induction ys) auto

lemma fallback_scan_first:
  "fallback_scan g x (ys @ y # zs) = Some y"
  if "\<forall>y'\<in>set ys. \<not> is_opaque (g (x, y'))" and "is_opaque (g (x, y))"
  using that by (induction ys) auto

lemma fallback_scan_Some:
  "fallback_scan g x ys = Some y \<Longrightarrow> y \<in> set ys \<and> is_opaque (g (x, y))"
  by (induction ys) (auto split: if_splits)

lemma boundary_scan_range:
  "boundary_scan g x ys = Some b \<Longrightarrow> \<exists>y\<in>set ys. b = y + 1"
  by (induction ys) (auto simp: Let_def split: if_splits)

lemma scan_column_transition:
  assumes "y + 1 < height" and "transition_at g x y"
    and "\<forall>y'<y. \<not> transition_at g x y'"
  shows "scan_column g height tc x = tc @ [(x, y + 1)]"
proof -
  from assms(1) have "y < height - 1" by simp
  then have "[0..<height - 1] = [0..<y] @ y # [Suc y..<height - 1]"
    by (rule upt_split_at)
  moreover from assms(3) have "\<forall>y'\<in>set [0..<y]. \<not> transition_at g x y'"
    by simp
  ultimately have "boundary_scan g x [0..<height - 1] = Some (y + 1)"
    using assms(2) by (simp add: boundary_scan_first)
  then show ?thesis
    by (simp add: scan_column_def)
qed

lemma scan_column_append:
  "scan_column g height tc x = tc @ scan_column g height [] x"
  by (simp add: scan_column_def split: option.splits)

lemma extract_terrain_curve_concat:
  "extract_terrain_curve width height g =
     concat (map (scan_column g height []) [0..<width])"
proof -
  have "foldl (scan_column g height) acc xs = acc @ concat (map (scan_column g height []) xs)"
    for acc xs
  proof (induction xs arbitrary: acc)
    case Nil
    then show ?case by simp
  next
    case (Cons x xs)
    show ?case
      using scan_column_append [of g height acc x] by (simp add: Cons.IH)
  qed
  then show ?thesis
    by (simp add: extract_terrain_curve_def)
qed

lemma scan_column_point:
  assumes "p \<in> set (scan_column g height [] x)"
  shows "fst p = x \<and> snd p < height"
proof (cases "boundary_scan g x [0..<height - 1]")
  case None
  show ?thesis
  proof (cases "fallback_scan g x [0..<height]")
    case n: None
    with None assms show ?thesis by (simp add: scan_column_def)
  next
    case (Some y)
    then have "y \<in> set [0..<height]" using fallback_scan_Some by blast
    with None Some assms show ?thesis by (simp add: scan_column_def)
  qed
next
  case (Some b)
  then obtain y where "y \<in> set [0..<height - 1]" and "b = y + 1"
    using boundary_scan_range by blast
  then have "b < height" by auto
  with Some assms show ?thesis by (simp add: scan_column_def)
qed

lemma scan_column_length: "length (scan_column g height [] x) \<le> 1"
  by (simp add: scan_column_def split: option.splits)

lemma filter_concat_columns:
  assumes "\<And>x' p. p \<in> set (f x') \<Longrightarrow> fst p = x'"
  shows "x < n \<Longrightarrow> filter (\<lambda>p. fst p = x) (concat (map f [0..<n])) = f x"
proof (induction n)
  case 0
  then show ?case by simp
next
  case (Suc n)
  have keep: "filter (\<lambda>p. fst p = x) (f x) = f x"
    using assms by (simp add: filter_id_conv)
  have drop: "filter (\<lambda>p. fst p = x) (f x') = []" if "x' \<noteq> x" for x'
    using assms that by (auto simp: filter_empty_conv)
  have none: "filter (\<lambda>p. fst p = x) (concat (map f [0..<m])) = []" if "m \<le> x" for m
    using that assms by (auto simp: filter_empty_conv)
  show ?case
  proof (cases "x = n")
    case True
    then show ?thesis using keep none [of n] by simp
  next
    case False
    with Suc.prems have "x < n" by simp
    with Suc.IH drop [of n] False show ?thesis by simp
  qed
qed

lemma extract_column_points:
  "x < width \<Longrightarrow>
   filter (\<lambda>p. fst p = x) (extract_terrain_curve width height g) = scan_column g height [] x"
  unfolding extract_terrain_curve_concat
  by (rule filter_concat_columns) (simp add: scan_column_point)


subsection \<open>Transition rule\<close>

text \<open>
  C6. In a column \<open>x\<close> of the image, let \<open>y\<close> be the first row (from the top, with
  \<open>y + 1\<close> still inside the image) that is transparent with an opaque row directly
  below. Then the points that the extraction emits for column \<open>x\<close> are exactly the one
  point \<open>(x, y + 1)\<close>. In particular a column of height 4 whose rows are transparent,
  transparent, opaque, opaque yields the boundary 2.
\<close>

theorem transition_correctness:
  "(x < width \<and> y + 1 < height \<and> transition_at g x y \<and> (\<forall>y'<y. \<not> transition_at g x y')
      \<longrightarrow> filter (\<lambda>p. fst p = x) (extract_terrain_curve width height g) = [(x, y + 1)]) \<and>
   (x < width \<and> is_transparent (g (x, 0)) \<and> is_transparent (g (x, 1)) \<and>
      is_opaque (g (x, 2)) \<and> is_opaque (g (x, 3))
      \<longrightarrow> filter (\<lambda>p. fst p = x) (extract_terrain_curve width 4 g) = [(x, 2)])"
proof (intro conjI impI)
  assume h: "x < width \<and> y + 1 < height \<and> transition_at g x y \<and>
    (\<forall>y'<y. \<not> transition_at g x y')"
  then have "scan_column g height [] x = [] @ [(x, y + 1)]"
    by (intro scan_column_transition) simp_all
  with h show "filter (\<lambda>p. fst p = x) (extract_terrain_curve width height g) = [(x, y + 1)]"
    by (simp add: extract_column_points)
next
  assume h: "x < width \<and> is_transparent (g (x, 0)) \<and> is_transparent (g (x, 1)) \<and>
      is_opaque (g (x, 2)) \<and> is_opaque (g (x, 3))"
  then have t1: "transition_at g x 1"
    by (simp add: transition_at_def numeral_2_eq_2)
  from h have "\<not> transition_at g x 0"
    by (simp add: transition_at_def is_opaque_iff)
  then have "\<forall>y'<1. \<not> transition_at g x y'"
    by simp
  with t1 have "scan_column g 4 [] x = [] @ [(x, 1 + 1)]"
    by (intro scan_column_transition) simp_all
  with h show "filter (\<lambda>p. fst p = x) (extract_terrain_curve width 4 g) = [(x, 2)]"
    by (simp add: extract_column_points)
qed

theorem transition_correctness_witness:
  "filter (\<lambda>p. fst p = 0)
     (extract_terrain_curve 1 4 (\<lambda>(x, y). if y < 2 then [0, 0, 0, 0] else [0, 0, 0, 255]))
   = [(0, 2)]"
  using transition_correctness
    [of 0 1 1 4 "\<lambda>(x, y). if y < 2 then [0, 0, 0, 0] else [0, 0, 0, 255]"]
  by (simp add: transition_at_def is_transparent_def is_opaque_def ALPHA_THRESHOLD_def)


subsection \<open>Degenerate columns and coverage (\<^verbatim>\<open>extract_bounds_rgb.py\<close>)\<close>

lemma rgb_all_transparent_skipped:
  assumes "\<forall>y<height. is_transparent (g (x, y))"
  shows "scan_column g height tc x = tc"
proof -
  have "\<forall>y\<in>set [0..<height - 1]. \<not> transition_at g x y"
    using assms by (auto simp: transition_at_def is_opaque_iff)
  then have "boundary_scan g x [0..<height - 1] = None"
    by (simp only: boundary_scan_None_iff)
  moreover have "\<forall>y\<in>set [0..<height]. \<not> is_opaque (g (x, y))"
    using assms by (simp add: is_opaque_iff)
  then have "fallback_scan g x [0..<height] = None"
    by (simp only: fallback_scan_None_iff)
  ultimately show ?thesis
    by (simp add: scan_column_def)
qed

lemma rgb_all_opaque:
  assumes "0 < height" and "\<forall>y<height. is_opaque (g (x, y))"
  shows "scan_column g height tc x = tc @ [(x, 0)]"
proof -
  have "\<forall>y\<in>set [0..<height - 1]. \<not> transition_at g x y"
    using assms(2) by (auto simp: transition_at_def is_opaque_iff)
  then have "boundary_scan g x [0..<height - 1] = None"
    by (simp only: boundary_scan_None_iff)
  moreover have "[0..<height] = [] @ 0 # [Suc 0..<height]"
    using assms(1) by (simp add: upt_conv_Cons)
  then have "fallback_scan g x [0..<height] = Some 0"
    using assms fallback_scan_first [of "[]" g x 0 "[Suc 0..<height]"] by simp
  ultimately show ?thesis
    by (simp add: scan_column_def)
qed

lemma scan_column_emits_iff:
  "scan_column g height [] x \<noteq> [] \<longleftrightarrow> (\<exists>y<height. is_opaque (g (x, y)))"
proof
  assume "scan_column g height [] x \<noteq> []"
  then show "\<exists>y<height. is_opaque (g (x, y))"
    using rgb_all_transparent_skipped [of height g x "[]"]
    by (auto simp: is_opaque_iff)
next
  assume "\<exists>y<height. is_opaque (g (x, y))"
  then have "fallback_scan g x [0..<height] \<noteq> None"
    by (auto simp: fallback_scan_None_iff)
  then show "scan_column g height [] x \<noteq> []"
    by (auto simp: scan_column_def split: option.splits)
qed

lemma extract_xs_increasing:
  "sorted_wrt (<) (map fst (extract_terrain_curve width height g))"
proof -
  have "sorted_wrt (<) (map fst (concat (map (scan_column g height []) [0..<n])))" for n
  proof (induction n)
    case 0
    then show ?case by simp
  next
    case (Suc n)
    have one: "sorted_wrt (<) (map fst (scan_column g height [] n))"
      by (simp add: scan_column_def split: option.splits)
    have "\<forall>p\<in>set (concat (map (scan_column g height []) [0..<n])).
            \<forall>q\<in>set (scan_column g height [] n). fst p < fst q"
      by (auto dest!: scan_column_point)
    with Suc one show ?case
      by (simp add: sorted_wrt_append)
  qed
  then show ?thesis
    by (simp add: extract_terrain_curve_concat)
qed

lemma extract_length_le: "length (extract_terrain_curve width height g) \<le> width"
proof -
  have "length (concat (map (scan_column g height []) [0..<n])) \<le> n" for n
  proof (induction n)
    case 0
    then show ?case by simp
  next
    case (Suc n)
    with scan_column_length [of g height n] show ?case by simp
  qed
  then show ?thesis
    by (simp add: extract_terrain_curve_concat)
qed

lemma extract_full_coverage:
  assumes "\<forall>x<width. \<exists>y<height. is_opaque (g (x, y))"
  shows "map fst (extract_terrain_curve width height g) = [0..<width]"
proof -
  have "n \<le> width \<Longrightarrow> map fst (concat (map (scan_column g height []) [0..<n])) = [0..<n]" for n
  proof (induction n)
    case 0
    then show ?case by simp
  next
    case (Suc n)
    then have "scan_column g height [] n \<noteq> []"
      using assms by (simp add: scan_column_emits_iff)
    moreover have "length (scan_column g height [] n) \<le> 1"
      by (rule scan_column_length)
    ultimately obtain p where p: "scan_column g height [] n = [p]"
      by (cases "scan_column g height [] n") auto
    then have "fst p = n"
      using scan_column_point [of p g height n] by simp
    with Suc p show ?case by simp
  qed
  then show ?thesis
    by (simp add: extract_terrain_curve_concat)
qed

subsection \<open>The sampled columns: \<^verbatim>\<open>range\<close> and the \<^verbatim>\<open>heightmap\<close> dict\<close>

lemma range_step_map:
  "0 < step \<Longrightarrow>
   range_step start stop step =
     map (\<lambda>i. start + i * step) [0..<(stop - start + step - 1) div step]"
proof (induction start stop step rule: range_step.induct)
  case (1 start stop step)
  show ?case
  proof (cases "start < stop")
    case False
    then have "(stop - start + step - 1) div step = 0"
      using "1.prems" by simp
    with False show ?thesis
      by (simp add: range_step.simps)
  next
    case True
    define m where "m = (stop - (start + step) + step - 1) div step"
    have count: "(stop - start + step - 1) div step = Suc m"
    proof (cases "start + step < stop")
      case True
      then have "stop - start + step - 1 = (stop - (start + step) + step - 1) + step"
        using "1.prems" by simp
      then have "(stop - start + step - 1) div step =
          ((stop - (start + step) + step - 1) + step) div step"
        by (simp only:)
      also have "\<dots> = m + 1"
        unfolding m_def using "1.prems" by (simp only: div_add_self2 less_numeral_extra(3) not_False_eq_True)
      finally show ?thesis by simp
    next
      case False
      with True "1.prems" have "step \<le> stop - start + step - 1"
        and "stop - start + step - 1 < 2 * step" by simp_all
      then have "(stop - start + step - 1) div step = 1"
        by (metis One_nat_def div_nat_eqI mult.commute mult_2_right nat_mult_1 plus_1_eq_Suc)
      moreover from False have "m = 0"
        using "1.prems" by (simp add: m_def)
      ultimately show ?thesis by simp
    qed
    have "range_step start stop step = start # range_step (start + step) stop step"
      using True "1.prems" by (subst range_step.simps) simp
    also have "range_step (start + step) stop step = map (\<lambda>i. start + step + i * step) [0..<m]"
      using "1.IH" True "1.prems" by (simp add: m_def)
    finally show ?thesis
      by (simp only: count map_upt_Suc) (simp add: algebra_simps)
  qed
qed

lemma ceiling_div_nat:
  assumes "0 < s"
  shows "nat \<lceil>real w / real s\<rceil> = (w + s - 1) div s"
proof -
  define n where "n = (w + s - 1) div s"
  have lo: "n * s \<le> w + s - 1"
    by (simp add: n_def)
  have hi: "w + s - 1 < (n + 1) * s"
    using dividend_less_div_times [OF assms, of "w + s - 1"]
    by (simp add: n_def algebra_simps)
  from hi assms have "w \<le> n * s" by simp
  then have "real w \<le> real (n * s)"
    by (simp only: of_nat_le_iff)
  then have up: "real w / real s \<le> of_int (int n)"
    using assms by (simp add: field_simps)
  have "real (n * s) < real w + real s"
    using lo assms by (metis Suc_pred' add_gr_0 le_imp_less_Suc of_nat_add of_nat_less_iff)
  then have down: "of_int (int n) - 1 < real w / real s"
    using assms by (simp add: field_simps)
  from down up have "\<lceil>real w / real s\<rceil> = int n"
    by (rule ceiling_unique)
  then show ?thesis
    by (simp add: n_def)
qed

lemma range_step_from_zero:
  "0 < step \<Longrightarrow>
   range_step 0 stop step = map (\<lambda>i. i * step) [0..<nat \<lceil>real stop / real step\<rceil>]"
  by (simp add: range_step_map ceiling_div_nat)

lemma update_fresh:
  "k \<notin> fst ` set al \<Longrightarrow> AList.update k v al = al @ [(k, v)]"
  by (induction al) auto

lemma foldl_update_fresh:
  assumes "distinct xs" and "set xs \<inter> fst ` set acc = {}"
  shows "foldl (\<lambda>hm x. AList.update x (f x) hm) acc xs = acc @ map (\<lambda>x. (x, f x)) xs"
  using assms
proof (induction xs arbitrary: acc)
  case Nil
  then show ?case by simp
next
  case (Cons x xs)
  then have fresh: "x \<notin> fst ` set acc" by auto
  have "set xs \<inter> fst ` set (acc @ [(x, f x)]) = {}"
    using Cons.prems by auto
  with Cons.IH [of "acc @ [(x, f x)]"] Cons.prems fresh show ?case
    by (simp add: update_fresh)
qed

lemma distinct_range_step: "distinct (range_step start stop step)"
proof (cases "0 < step")
  case True
  have "inj_on (\<lambda>i. start + i * step) A" for A
    using True by (simp add: inj_on_def)
  then show ?thesis
    using True by (simp add: range_step_map distinct_map)
next
  case False
  then show ?thesis by (simp add: range_step.simps)
qed

lemma heightmap_loop:
  "foldl (\<lambda>hm x. AList.update x (f x) hm) [] (range_step start stop step) =
     map (\<lambda>x. (x, f x)) (range_step start stop step)"
  using foldl_update_fresh [of "range_step start stop step" "[]" f]
  by (simp add: distinct_range_step)


subsection \<open>\<^verbatim>\<open>extract_bounds_fast.py\<close>: the alpha array and the column scan\<close>

lemma build_row_Inr:
  "build_row pixels width y row xs = Inr r \<Longrightarrow>
   r = row @ map (\<lambda>x. pixels ! (y * width + x)) xs"
proof (induction xs arbitrary: row)
  case Nil
  then show ?case by simp
next
  case (Cons x xs)
  from Cons.prems have "build_row pixels width y (row @ [pixels ! (y * width + x)]) xs = Inr r"
    by (simp add: Let_def split: if_splits)
  from Cons.IH [OF this] show ?case by simp
qed

lemma build_row_total:
  "\<forall>x\<in>set xs. y * width + x < length pixels \<Longrightarrow>
   build_row pixels width y row xs = Inr (row @ map (\<lambda>x. pixels ! (y * width + x)) xs)"
  by (induction xs arbitrary: row) (auto simp: Let_def)

lemma build_alpha_Inr:
  "build_alpha pixels width alpha ys = Inr a \<Longrightarrow>
   a = alpha @ map (\<lambda>y. map (\<lambda>x. pixels ! (y * width + x)) [0..<width]) ys"
proof (induction ys arbitrary: alpha)
  case Nil
  then show ?case by simp
next
  case (Cons y ys)
  from Cons.prems obtain row where
    row: "build_row pixels width y [] [0..<width] = Inr row"
    and rest: "build_alpha pixels width (alpha @ [row]) ys = Inr a"
    by (auto split: sum.splits)
  from build_row_Inr [OF row] have "row = map (\<lambda>x. pixels ! (y * width + x)) [0..<width]"
    by simp
  with Cons.IH [OF rest] show ?case by simp
qed

lemma build_alpha_total:
  assumes "\<forall>y\<in>set ys. \<forall>x<width. y * width + x < length pixels"
  shows "build_alpha pixels width alpha ys =
           Inr (alpha @ map (\<lambda>y. map (\<lambda>x. pixels ! (y * width + x)) [0..<width]) ys)"
  using assms
proof (induction ys arbitrary: alpha)
  case Nil
  then show ?case by simp
next
  case (Cons y ys)
  then have "build_row pixels width y [] [0..<width] =
      Inr ([] @ map (\<lambda>x. pixels ! (y * width + x)) [0..<width])"
    by (intro build_row_total) simp
  with Cons show ?case by simp
qed

lemma index_in_grid:
  assumes "width * height \<le> length pixels" and "y < height" and "x < width"
  shows "y * width + x < length pixels"
proof -
  from assms(2) have "Suc y \<le> height" by simp
  then have "Suc y * width \<le> height * width"
    by (rule mult_le_mono1)
  with assms(1,3) show ?thesis
    by (simp add: mult.commute)
qed

lemma alpha_entry:
  assumes "build_alpha pixels width [] [0..<height] = Inr alpha"
    and "y < height" and "x < width"
  shows "alpha ! y ! x = pixels ! (y * width + x)"
  using build_alpha_Inr [OF assms(1)] assms(2,3) by simp

lemma top_scan_none:
  "\<forall>y\<in>set ys. \<not> ALPHA_THRESHOLD_fast < alpha ! y ! x \<Longrightarrow> top_scan alpha x d ys = d"
  by (induction ys) auto

lemma top_scan_first:
  "\<forall>y'\<in>set us. \<not> ALPHA_THRESHOLD_fast < alpha ! y' ! x \<Longrightarrow>
   ALPHA_THRESHOLD_fast < alpha ! y ! x \<Longrightarrow>
   top_scan alpha x d (us @ y # vs) = int y"
  by (induction us) auto

lemma top_scan_cases:
  "top_scan alpha x d ys = d \<or> (\<exists>y\<in>set ys. top_scan alpha x d ys = int y)"
  by (induction ys) auto

lemma main_fast_Inr:
  assumes "main_fast width height pixels = Inr heightmap"
  obtains alpha where "build_alpha pixels width [] [0..<height] = Inr alpha"
    and "heightmap =
      map (\<lambda>x. (x, top_scan alpha x (int height - 1) [0..<height]))
        (range_step 0 width SAMPLE_INTERVAL_fast)"
proof -
  from assms obtain alpha where a: "build_alpha pixels width [] [0..<height] = Inr alpha"
    and h: "heightmap =
      foldl (sample_column alpha height) [] (range_step 0 width SAMPLE_INTERVAL_fast)"
    by (auto simp: main_fast_def split: sum.splits)
  have "sample_column alpha height =
      (\<lambda>hm x. AList.update x (top_scan alpha x (int height - 1) [0..<height]) hm)"
    by (simp add: sample_column_def fun_eq_iff)
  with h have "heightmap =
      map (\<lambda>x. (x, top_scan alpha x (int height - 1) [0..<height]))
        (range_step 0 width SAMPLE_INTERVAL_fast)"
    by (simp only: heightmap_loop)
  with a show thesis by (rule that)
qed

lemma main_fast_total:
  assumes "width * height \<le> length pixels"
  shows "\<exists>heightmap. main_fast width height pixels = Inr heightmap"
proof -
  have "\<forall>y\<in>set [0..<height]. \<forall>x<width. y * width + x < length pixels"
    using assms by (simp add: index_in_grid)
  then have "build_alpha pixels width [] [0..<height] =
      Inr ([] @ map (\<lambda>y. map (\<lambda>x. pixels ! (y * width + x)) [0..<width]) [0..<height])"
    by (rule build_alpha_total)
  then show ?thesis
    by (simp add: main_fast_def)
qed

lemma fast_coverage:
  assumes "main_fast width height pixels = Inr heightmap"
  shows "map fst heightmap = map (\<lambda>i. i * 10) [0..<nat \<lceil>real width / 10\<rceil>]"
proof -
  from assms obtain alpha where "heightmap =
      map (\<lambda>x. (x, top_scan alpha x (int height - 1) [0..<height]))
        (range_step 0 width SAMPLE_INTERVAL_fast)"
    by (rule main_fast_Inr)
  then have "map fst heightmap = range_step 0 width SAMPLE_INTERVAL_fast"
    by (simp add: comp_def)
  also have "\<dots> = map (\<lambda>i. i * 10) [0..<nat \<lceil>real width / 10\<rceil>]"
    using range_step_from_zero [of 10 width] by (simp add: SAMPLE_INTERVAL_fast_def)
  finally show ?thesis .
qed

lemma fast_column_value:
  assumes "main_fast width height pixels = Inr heightmap"
    and "(x, top_y) \<in> set heightmap"
  obtains alpha where "build_alpha pixels width [] [0..<height] = Inr alpha"
    and "top_y = top_scan alpha x (int height - 1) [0..<height]"
    and "x < width"
proof -
  from assms(1) obtain alpha where a: "build_alpha pixels width [] [0..<height] = Inr alpha"
    and h: "heightmap =
      map (\<lambda>x. (x, top_scan alpha x (int height - 1) [0..<height]))
        (range_step 0 width SAMPLE_INTERVAL_fast)"
    by (rule main_fast_Inr)
  from h assms(2) have t: "top_y = top_scan alpha x (int height - 1) [0..<height]"
    and "x \<in> set (range_step 0 width SAMPLE_INTERVAL_fast)" by auto
  then have "x \<in> set (map (\<lambda>i. 0 + i * 10) [0..<(width - 0 + 10 - 1) div 10])"
    using range_step_map [of 10 0 width] by (simp add: SAMPLE_INTERVAL_fast_def)
  then have "x < width" by auto
  with a t show thesis by (rule that)
qed

lemma fast_all_opaque:
  assumes "main_fast width height pixels = Inr heightmap"
    and "(x, top_y) \<in> set heightmap" and "0 < height"
    and "\<forall>y<height. ALPHA_THRESHOLD_fast < pixels ! (y * width + x)"
  shows "top_y = 0"
proof -
  from assms(1,2) obtain alpha where a: "build_alpha pixels width [] [0..<height] = Inr alpha"
    and t: "top_y = top_scan alpha x (int height - 1) [0..<height]" and x: "x < width"
    by (rule fast_column_value)
  from assms(3,4) have "ALPHA_THRESHOLD_fast < pixels ! (0 * width + x)"
    by blast
  then have "ALPHA_THRESHOLD_fast < alpha ! 0 ! x"
    using alpha_entry [OF a assms(3) x] by simp
  then have "top_scan alpha x (int height - 1) ([] @ 0 # [Suc 0..<height]) = int 0"
    by (intro top_scan_first) simp_all
  moreover have "[0..<height] = 0 # [Suc 0..<height]"
    using assms(3) by (simp add: upt_conv_Cons)
  ultimately show ?thesis
    using t by simp
qed

lemma fast_all_transparent:
  assumes "main_fast width height pixels = Inr heightmap"
    and "(x, top_y) \<in> set heightmap"
    and "\<forall>y<height. pixels ! (y * width + x) \<le> ALPHA_THRESHOLD_fast"
  shows "top_y = int height - 1"
proof -
  from assms(1,2) obtain alpha where a: "build_alpha pixels width [] [0..<height] = Inr alpha"
    and t: "top_y = top_scan alpha x (int height - 1) [0..<height]" and x: "x < width"
    by (rule fast_column_value)
  have "\<forall>y\<in>set [0..<height]. \<not> ALPHA_THRESHOLD_fast < alpha ! y ! x"
    using alpha_entry [OF a _ x] assms(3) by (simp add: not_less)
  then show ?thesis
    unfolding t by (rule top_scan_none)
qed

lemma fast_range:
  assumes "main_fast width height pixels = Inr heightmap"
    and "(x, top_y) \<in> set heightmap" and "1 \<le> height"
  shows "0 \<le> top_y \<and> top_y \<le> int height - 1"
proof -
  from assms(1,2) obtain alpha where
    t: "top_y = top_scan alpha x (int height - 1) [0..<height]"
    by (rule fast_column_value)
  from top_scan_cases [of alpha x "int height - 1" "[0..<height]"] t
  have "top_y = int height - 1 \<or> (\<exists>y<height. top_y = int y)" by auto
  with assms(3) show ?thesis by auto
qed


subsection \<open>\<^verbatim>\<open>extract_bounds.py\<close>: \<^verbatim>\<open>find_top_opaque_pixel\<close>\<close>

lemma opaque_scan_none:
  "\<forall>y\<in>set ys. \<not> 0.5 < a x y \<Longrightarrow> opaque_scan a x ys = None"
  by (induction ys) (auto simp: Let_def)

lemma opaque_scan_first:
  "\<forall>y'\<in>set us. \<not> 0.5 < a x y' \<Longrightarrow> 0.5 < a x y \<Longrightarrow>
   opaque_scan a x (us @ y # vs) = Some y"
  by (induction us) (auto simp: Let_def)

lemma opaque_scan_Some:
  "opaque_scan a x ys = Some y \<Longrightarrow> y \<in> set ys \<and> 0.5 < a x y"
  by (induction ys) (auto simp: Let_def split: if_splits)

lemma bounds_all_opaque:
  assumes "\<forall>y<HEIGHT. 0.5 < a x y"
  shows "find_top_opaque_pixel a x = 0"
proof -
  have "0 < HEIGHT" by (simp add: HEIGHT_def)
  then have "[0..<HEIGHT] = [] @ 0 # [Suc 0..<HEIGHT]"
    by (simp add: upt_conv_Cons)
  moreover have "0.5 < a x 0"
    using assms \<open>0 < HEIGHT\<close> by simp
  ultimately have "opaque_scan a x [0..<HEIGHT] = Some 0"
    using opaque_scan_first [of "[]" a x 0 "[Suc 0..<HEIGHT]"] by simp
  then show ?thesis
    by (simp add: find_top_opaque_pixel_def)
qed

lemma bounds_all_transparent:
  assumes "\<forall>y<HEIGHT. a x y \<le> 0.5"
  shows "find_top_opaque_pixel a x = int HEIGHT - 1"
proof -
  have "\<forall>y\<in>set [0..<HEIGHT]. \<not> 0.5 < a x y"
    using assms by (simp add: not_less)
  then have "opaque_scan a x [0..<HEIGHT] = None"
    by (rule opaque_scan_none)
  then show ?thesis
    by (simp add: find_top_opaque_pixel_def)
qed

lemma bounds_range:
  "0 \<le> find_top_opaque_pixel a x \<and> find_top_opaque_pixel a x \<le> int HEIGHT - 1"
proof (cases "opaque_scan a x [0..<HEIGHT]")
  case None
  then show ?thesis
    by (simp add: find_top_opaque_pixel_def HEIGHT_def)
next
  case (Some y)
  then have "y \<in> set [0..<HEIGHT]"
    using opaque_scan_Some by blast
  with Some show ?thesis
    by (simp add: find_top_opaque_pixel_def)
qed

lemma main_bounds_map:
  "main_bounds a =
     map (\<lambda>x. (x, find_top_opaque_pixel a x)) (range_step 0 WIDTH SAMPLE_INTERVAL)"
  by (simp add: main_bounds_def heightmap_loop)

lemma bounds_coverage:
  "map fst (main_bounds a) = map (\<lambda>i. i * 10) [0..<64]"
proof -
  have "map fst (main_bounds a) = range_step 0 WIDTH SAMPLE_INTERVAL"
    by (simp add: main_bounds_map comp_def)
  also have "\<dots> = map (\<lambda>i. i * 10) [0..<64]"
    using range_step_map [of 10 0 640] by (simp add: WIDTH_def SAMPLE_INTERVAL_def)
  finally show ?thesis .
qed


subsection \<open>Coverage\<close>

text \<open>
  C4. The claim is that every sampled column gets a point, so that a grid of width \<open>W\<close>
  sampled with step \<open>s\<close> gives \<open>ceil(W / s)\<close> points, all-transparent columns included.
  \<^verbatim>\<open>extract_bounds_fast.py\<close> and \<^verbatim>\<open>extract_bounds.py\<close> behave so (\<open>fast_coverage\<close>,
  \<open>bounds_coverage\<close> above, step 10). \<^verbatim>\<open>extract_bounds_rgb.py\<close> (step 1) does not: on the
  2 by 2 image whose column 0 is fully transparent and whose column 1 is fully opaque it
  emits the single point \<open>(1, 0)\<close>, where the claim promises 2 points.
\<close>

theorem coverage_misses_transparent_column:
  "extract_terrain_curve 2 2 (\<lambda>(x, y). if x = 0 then [0, 0, 0, 0] else [0, 0, 0, 255]) = [(1, 0)] \<and>
   length (extract_terrain_curve 2 2 (\<lambda>(x, y). if x = 0 then [0, 0, 0, 0] else [0, 0, 0, 255]))
     < nat \<lceil>real 2 / real 1\<rceil>"
proof -
  have "extract_terrain_curve 2 2 (\<lambda>(x, y). if x = 0 then [0, 0, 0, 0] else [0, 0, 0, 255]) = [(1, 0)]"
    by code_simp
  then show ?thesis by simp
qed


subsection \<open>Fallback rule\<close>

text \<open>
  C5. The claim is that an all-opaque column yields 0 and an all-transparent column of
  height \<open>H\<close> yields \<open>H - 1\<close>. The first half holds in all three scripts
  (\<open>rgb_all_opaque\<close>, \<open>fast_all_opaque\<close>, \<open>bounds_all_opaque\<close>), the second in
  \<^verbatim>\<open>extract_bounds_fast.py\<close> and \<^verbatim>\<open>extract_bounds.py\<close> (\<open>fast_all_transparent\<close>,
  \<open>bounds_all_transparent\<close>). In \<^verbatim>\<open>extract_bounds_rgb.py\<close> an all-transparent column
  yields no point at all (\<open>rgb_all_transparent_skipped\<close>): for a column of height 3 the
  script emits nothing, where the two other scripts give row 2 (and row 383 for the fixed
  height 384).
\<close>

theorem fallback_misses_transparent_column:
  "scan_column (\<lambda>p. [0, 0, 0, 0]) 3 [] 0 = [] \<and>
   extract_terrain_curve 1 3 (\<lambda>p. [0, 0, 0, 0]) = [] \<and>
   main_fast 1 3 [0, 0, 0] = Inr [(0, 2)] \<and>
   find_top_opaque_pixel (\<lambda>x y. 0) 0 = 383"
proof -
  have "scan_column (\<lambda>p. [0, 0, 0, 0]) 3 [] 0 = []"
    by code_simp
  moreover have "extract_terrain_curve 1 3 (\<lambda>p. [0, 0, 0, 0]) = []"
    by code_simp
  moreover have "main_fast 1 3 [0, 0, 0] = Inr [(0, 2)]"
    by code_simp
  moreover have "find_top_opaque_pixel (\<lambda>x y. 0) 0 = 383"
    using bounds_all_transparent [of "\<lambda>x y. 0" 0] by (simp add: HEIGHT_def)
  ultimately show ?thesis by simp
qed


subsection \<open>Range of the boundary\<close>

text \<open>
  C10. Every boundary value that any of the three scripts emits lies inside the grid:
  a point \<open>(x, y)\<close> of \<^verbatim>\<open>terrain_curve\<close> has \<open>0 \<le> y \<le> height - 1\<close>; for a PGM grid of
  height at least 1 every value of \<^verbatim>\<open>heightmap\<close> lies in \<open>0 .. height - 1\<close>; and
  \<^verbatim>\<open>find_top_opaque_pixel\<close> returns a value in \<open>0 .. HEIGHT - 1\<close>.
\<close>

theorem boundary_range_invariant:
  "((x, y) \<in> set (extract_terrain_curve width height g)
      \<longrightarrow> 0 \<le> int y \<and> int y \<le> int height - 1) \<and>
   (1 \<le> height \<and> main_fast width height pixels = Inr heightmap \<and> (x', top_y) \<in> set heightmap
      \<longrightarrow> 0 \<le> top_y \<and> top_y \<le> int height - 1) \<and>
   (0 \<le> find_top_opaque_pixel a x'' \<and> find_top_opaque_pixel a x'' \<le> int HEIGHT - 1)"
proof (intro conjI impI)
  assume "(x, y) \<in> set (extract_terrain_curve width height g)"
  then obtain c where "(x, y) \<in> set (scan_column g height [] c)"
    by (auto simp: extract_terrain_curve_concat)
  from scan_column_point [OF this] have "y < height" by simp
  then show "0 \<le> int y" and "int y \<le> int height - 1" by simp_all
next
  assume h: "1 \<le> height \<and> main_fast width height pixels = Inr heightmap \<and>
    (x', top_y) \<in> set heightmap"
  then have "0 \<le> top_y \<and> top_y \<le> int height - 1"
    by (intro fast_range [of width height pixels heightmap x']) simp_all
  then show "0 \<le> top_y" and "top_y \<le> int height - 1" by simp_all
next
  show "0 \<le> find_top_opaque_pixel a x''" and "find_top_opaque_pixel a x'' \<le> int HEIGHT - 1"
    using bounds_range [of a x''] by simp_all
qed

theorem boundary_range_invariant_witness:
  "(0, 2) \<in> set (extract_terrain_curve 1 4
      (\<lambda>(x, y). if y < 2 then [0, 0, 0, 0] else [0, 0, 0, 255])) \<and>
   0 \<le> int 2 \<and> int 2 \<le> int 4 - 1 \<and>
   main_fast 1 4 [0, 200, 7, 9] = Inr [(0, 1)] \<and> (0 :: int) \<le> 1 \<and> (1 :: int) \<le> int 4 - 1 \<and>
   find_top_opaque_pixel (\<lambda>x y. 1) 5 \<le> 383"
proof -
  have e1: "extract_terrain_curve 1 4
      (\<lambda>(x, y). if y < 2 then [0, 0, 0, 0] else [0, 0, 0, 255]) = [(0, 2)]"
    by code_simp
  have e2: "main_fast 1 4 [0, 200, 7, 9] = Inr [(0, 1)]"
    by code_simp
  show ?thesis
    using boundary_range_invariant
      [where x = 0 and y = 2 and width = 1 and height = 4
         and g = "\<lambda>(x, y). if y < 2 then [0, 0, 0, 0] else [0, 0, 0, 255]"
         and pixels = "[0, 200, 7, 9]" and heightmap = "[(0, 1)]" and x' = 0 and top_y = 1
         and a = "\<lambda>x y. 1" and x'' = 5] e1 e2
    by (simp add: HEIGHT_def)
qed


subsection \<open>The safety shift\<close>

lemma np_max_Max:
  assumes "xs \<noteq> []"
  shows "np_max xs = Inr (Max (set xs))"
proof (cases xs)
  case Nil
  with assms show ?thesis by simp
next
  case (Cons x rest)
  have "Max (set (x # rest)) = fold max rest x"
    by (rule Max.set_eq_fold)
  with Cons show ?thesis
    by (simp only: np_max_def list.case)
qed

lemma evaluate_shift:
  assumes "length params = 7"
  shows "evaluate width (params[0 := params ! 0 - m]) x = evaluate width params x - m"
  using assms by (simp add: evaluate_def fourier_curve_def Let_def)

lemma fourier_curve_star_eval:
  assumes "length params = 7" and "0 < width"
  shows "fourier_curve_star width x_data params = Inr (map (evaluate width params) x_data)"
  using assms by (simp add: fourier_curve_star_def evaluate_def)

lemma safe_boundary_value:
  assumes "terrain_curve \<noteq> []" and "length params = 7" and "0 < width"
  shows "safe_boundary width terrain_curve params =
    Inr (params[0 := params ! 0 - (Max (residuals width params terrain_curve) + 5)],
         \<forall>p\<in>set terrain_curve.
           evaluate width (params[0 := params ! 0 - (Max (residuals width params terrain_curve) + 5)])
             (real (fst p)) \<le> real (snd p))"
proof -
  let ?xs = "map (\<lambda>p. real (fst p)) terrain_curve"
  let ?ys = "map (\<lambda>p. real (snd p)) terrain_curve"
  let ?safe = "params[0 := params ! 0 - (Max (residuals width params terrain_curve) + 5)]"
  have fitted: "fourier_curve_star width ?xs params = Inr (map (evaluate width params) ?xs)"
    using assms(2,3) by (rule fourier_curve_star_eval)
  have diff: "map2 (-) ?ys (map (evaluate width params) ?xs) =
      map (\<lambda>p. real (snd p) - evaluate width params (real (fst p))) terrain_curve"
    by (simp add: map2_map_map comp_def)
  have "np_max (map2 (-) ?ys (map (evaluate width params) ?xs)) =
      Inr (Max (residuals width params terrain_curve))"
    unfolding diff using assms(1) by (simp add: np_max_Max residuals_def)
  moreover have "fourier_curve_star width ?xs ?safe = Inr (map (evaluate width ?safe) ?xs)"
    using assms(2,3) by (intro fourier_curve_star_eval) simp_all
  moreover have "list_all2 (\<le>) (map (evaluate width ?safe) ?xs) ?ys =
      (\<forall>p\<in>set terrain_curve. evaluate width ?safe (real (fst p)) \<le> real (snd p))"
    by (simp add: list_all2_map1 list_all2_map2 list_all2_same)
  ultimately show ?thesis
    using fitted by (simp add: safe_boundary_def Let_def)
qed

lemma safe_boundary_Inr_wellformed:
  assumes "safe_boundary width terrain_curve params = Inr r"
  shows "terrain_curve \<noteq> [] \<and> length params = 7 \<and> 0 < width"
proof -
  have "length params = 7" and "0 < width"
    using assms
    by (auto simp: safe_boundary_def fourier_curve_star_def Let_def split: if_splits)
  moreover have "terrain_curve \<noteq> []"
  proof
    assume "terrain_curve = []"
    with \<open>length params = 7\<close> \<open>0 < width\<close> have "safe_boundary width terrain_curve params = Inl ValueError"
      by (simp add: safe_boundary_def fourier_curve_star_def np_max_def)
    with assms show False by simp
  qed
  ultimately show ?thesis by simp
qed

text \<open>
  When the printed check comes out true: every overshoot \<open>fitted\<^sub>i - y\<^sub>i\<close> must be
  matched by some residual \<open>y\<^sub>j - fitted\<^sub>j\<close> to within the 5 units.
\<close>

lemma envelope_flag_iff:
  assumes "safe_boundary width terrain_curve params = Inr (safe_params, ok)"
  shows "ok \<longleftrightarrow>
    (\<forall>p\<in>set terrain_curve. \<exists>q\<in>set terrain_curve.
       evaluate width params (real (fst p)) - real (snd p)
         \<le> real (snd q) - evaluate width params (real (fst q)) + 5)"
proof -
  from assms have wf: "terrain_curve \<noteq> []" "length params = 7" "0 < width"
    using safe_boundary_Inr_wellformed by blast+
  define R where "R = residuals width params terrain_curve"
  have fin: "finite R" "R \<noteq> {}"
    using wf(1) by (simp_all add: R_def residuals_def)
  from safe_boundary_value [OF wf] assms
  have "ok \<longleftrightarrow> (\<forall>p\<in>set terrain_curve.
      evaluate width (params[0 := params ! 0 - (Max R + 5)]) (real (fst p)) \<le> real (snd p))"
    by (simp add: R_def)
  also have "\<dots> \<longleftrightarrow> (\<forall>p\<in>set terrain_curve.
      evaluate width params (real (fst p)) - real (snd p) - 5 \<le> Max R)"
    using wf(2) by (simp add: evaluate_shift algebra_simps)
  also have "\<dots> \<longleftrightarrow> (\<forall>p\<in>set terrain_curve. \<exists>r\<in>R.
      evaluate width params (real (fst p)) - real (snd p) - 5 \<le> r)"
    using fin by (simp add: Max_ge_iff)
  also have "\<dots> \<longleftrightarrow> (\<forall>p\<in>set terrain_curve. \<exists>q\<in>set terrain_curve.
       evaluate width params (real (fst p)) - real (snd p)
         \<le> real (snd q) - evaluate width params (real (fst q)) + 5)"
    by (simp add: R_def residuals_def algebra_simps)
  finally show ?thesis .
qed

text \<open>
  C3. For a non-empty boundary set, seven coefficients and a positive width, the
  adjustment returns the fitted coefficients with the DC coefficient lowered by the margin,
  and the margin is the largest residual \<open>y\<^sub>i - evaluate(fitted, x\<^sub>i)\<close> plus 5.
\<close>

theorem margin_computation:
  assumes "terrain_curve \<noteq> []" and "length params = 7" and "0 < width"
  shows "\<exists>ok. safe_boundary width terrain_curve params =
           Inr (params[0 := params ! 0 - (Max (residuals width params terrain_curve) + 5)], ok)"
  using safe_boundary_value [OF assms] by blast

theorem margin_computation_witness:
  "[(0, 3), (2, 5)] \<noteq> ([] :: (nat \<times> nat) list) \<and>
   length [4, 1, 0, 0, 0, 0, 0 :: real] = 7 \<and> (0 :: nat) < 4 \<and>
   residuals 4 [4, 1, 0, 0, 0, 0, 0] [(0, 3), (2, 5)] = {- 2, 2} \<and>
   (\<exists>ok. safe_boundary 4 [(0, 3), (2, 5)] [4, 1, 0, 0, 0, 0, 0] =
           Inr ([- 3, 1, 0, 0, 0, 0, 0], ok))"
proof -
  have r: "residuals 4 [4, 1, 0, 0, 0, 0, 0] [(0, 3), (2, 5)] = {- 2, 2}"
    by (simp add: residuals_def evaluate_def fourier_curve_def)
  show ?thesis
    using margin_computation [of "[(0, 3), (2, 5)]" "[4, 1, 0, 0, 0, 0, 0]" 4]
    by (simp add: r)
qed

text \<open>
  C7. Whenever the adjustment returns, the returned array has seven entries, its six
  harmonic entries (indices 1 to 6: a1, b1, a2, b2, a3, b3) are those of the fitted array,
  and, evaluated with the same width as period, the returned curve is the fitted curve
  shifted by one constant.
\<close>

theorem frame_property:
  assumes "safe_boundary width terrain_curve params = Inr (safe_params, ok)"
  shows "length safe_params = 7 \<and>
         safe_params ! 1 = params ! 1 \<and> safe_params ! 2 = params ! 2 \<and>
         safe_params ! 3 = params ! 3 \<and> safe_params ! 4 = params ! 4 \<and>
         safe_params ! 5 = params ! 5 \<and> safe_params ! 6 = params ! 6 \<and>
         (\<exists>margin. safe_params ! 0 = params ! 0 - margin \<and>
            (\<forall>x. evaluate width safe_params x = evaluate width params x - margin))"
proof -
  from assms have wf: "terrain_curve \<noteq> []" "length params = 7" "0 < width"
    using safe_boundary_Inr_wellformed by blast+
  define margin where "margin = Max (residuals width params terrain_curve) + 5"
  from safe_boundary_value [OF wf] assms
  have safe: "safe_params = params[0 := params ! 0 - margin]"
    by (simp add: margin_def)
  have "safe_params ! 0 = params ! 0 - margin"
    using wf(2) by (simp add: safe)
  moreover have "\<forall>x. evaluate width safe_params x = evaluate width params x - margin"
    using wf(2) by (simp add: safe evaluate_shift)
  ultimately show ?thesis
    using wf(2) by (auto simp: safe)
qed

theorem frame_property_witness:
  "safe_boundary 4 [(0, 3), (2, 5)] [4, 1, 0, 0, 0, 0, 0] = Inr ([- 3, 1, 0, 0, 0, 0, 0], True) \<and>
   [- 3, 1, 0, 0, 0, 0, 0] ! 1 = [4, 1, 0, 0, 0, 0, 0 :: real] ! 1"
proof -
  have e: "safe_boundary 4 [(0, 3), (2, 5)] [4, 1, 0, 0, 0, 0, 0] =
      Inr ([- 3, 1, 0, 0, 0, 0, 0], True)"
    by (simp add: safe_boundary_def fourier_curve_star_def fourier_curve_def np_max_def Let_def)
  from frame_property [OF e] e show ?thesis by simp
qed

text \<open>
  C2, as the script does it. The script has no failure for a violated envelope. For a
  non-empty boundary set, seven coefficients and a positive width the adjustment returns
  a value and never an error: the fitted coefficients with the DC coefficient lowered by
  the largest residual plus 5, paired with a truth value. That truth value holds exactly
  when the curve of the returned coefficients is at or below every boundary point, and the
  coefficients returned are the same whether it holds or not.
\<close>

theorem envelope_check_reported:
  assumes "terrain_curve \<noteq> []" and "length params = 7" and "0 < width"
  shows "\<exists>ok.
           safe_boundary width terrain_curve params =
             Inr (params[0 := params ! 0 - (Max (residuals width params terrain_curve) + 5)], ok) \<and>
           (ok \<longleftrightarrow> (\<forall>p\<in>set terrain_curve.
                    evaluate width
                      (params[0 := params ! 0 - (Max (residuals width params terrain_curve) + 5)])
                      (real (fst p)) \<le> real (snd p))) \<and>
           (\<forall>e. safe_boundary width terrain_curve params \<noteq> Inl e)"
  using safe_boundary_value [OF assms] by simp

theorem envelope_check_reported_witness:
  "[(0, 20), (1, 110), (2, 110)] \<noteq> ([] :: (nat \<times> nat) list) \<and>
   length [80, 0, 0, 0, 0, 0, 0 :: real] = 7 \<and> (0 :: nat) < 12 \<and>
   safe_boundary 12 [(0, 20), (1, 110), (2, 110)] [80, 0, 0, 0, 0, 0, 0] =
     Inr ([45, 0, 0, 0, 0, 0, 0], False) \<and>
   safe_boundary 4 [(0, 5), (2, 6)] [5, 0, 0, 0, 0, 0, 0] =
     Inr ([- 1, 0, 0, 0, 0, 0, 0], True)"
proof -
  have r1: "residuals 12 [80, 0, 0, 0, 0, 0, 0] [(0, 20), (1, 110), (2, 110)] = {- 60, 30}"
    by (simp add: residuals_def evaluate_def fourier_curve_def)
  have r2: "residuals 4 [5, 0, 0, 0, 0, 0, 0] [(0, 5), (2, 6)] = {0, 1}"
    by (simp add: residuals_def evaluate_def fourier_curve_def)
  show ?thesis
    using envelope_check_reported [of "[(0, 20), (1, 110), (2, 110)]" "[80, 0, 0, 0, 0, 0, 0]" 12]
      envelope_check_reported [of "[(0, 5), (2, 6)]" "[5, 0, 0, 0, 0, 0, 0]" 4] r1 r2
    by (auto simp: evaluate_def fourier_curve_def)
qed

text \<open>
  C2 as stated fails: on the boundary set below (the rows 20, 110, 110 repeated over 12
  columns, fitted by the constant 80) the shifted curve lies at 45, above the boundary
  point \<open>(0, 20)\<close> in value, and the adjustment still returns it, with the truth value
  \<open>False\<close>.
\<close>

theorem envelope_violation_returned:
  "safe_boundary 12
     [(0, 20), (1, 110), (2, 110), (3, 20), (4, 110), (5, 110),
      (6, 20), (7, 110), (8, 110), (9, 20), (10, 110), (11, 110)]
     [80, 0, 0, 0, 0, 0, 0]
   = Inr ([45, 0, 0, 0, 0, 0, 0], False) \<and>
   \<not> evaluate 12 [45, 0, 0, 0, 0, 0, 0] (real 0) \<le> real 20"
  by (simp add: safe_boundary_def fourier_curve_star_def fourier_curve_def np_max_def
      evaluate_def Let_def)


subsection \<open>A boundary whose least-squares fit breaks the envelope\<close>

text \<open>
  Over the 12 columns the pattern 10, 40, 40 differs from its mean 30 by a multiple of
  \<open>cos (4 f x)\<close>, which the seven basis functions \<open>1, cos (k f x), sin (k f x)\<close>
  (\<open>k\<close> up to 3) cannot reach: the weighted sums below vanish.
\<close>

lemma quarter_turn:
  fixes t q :: real
  assumes "(cos q = 0 \<and> sin q = 1) \<or> (cos q = - 1 \<and> sin q = 0) \<or> (cos q = 0 \<and> sin q = - 1)"
  shows "cos t + cos (t + q) + cos (t + q + q) + cos (t + q + q + q) = 0"
    and "sin t + sin (t + q) + sin (t + q + q) + sin (t + q + q + q) = 0"
proof -
  define u where "u = t + q"
  define v where "v = u + q"
  define z where "z = v + q"
  have cu: "cos u = cos t * cos q - sin t * sin q" and su: "sin u = sin t * cos q + cos t * sin q"
    unfolding u_def by (rule cos_add, rule sin_add)
  have cv: "cos v = cos u * cos q - sin u * sin q" and sv: "sin v = sin u * cos q + cos u * sin q"
    unfolding v_def by (rule cos_add, rule sin_add)
  have cz: "cos z = cos v * cos q - sin v * sin q" and sz: "sin z = sin v * cos q + cos v * sin q"
    unfolding z_def by (rule cos_add, rule sin_add)
  have "cos t + cos u + cos v + cos z = 0"
    unfolding cz sz cv sv cu su using assms by auto
  then show "cos t + cos (t + q) + cos (t + q + q) + cos (t + q + q + q) = 0"
    by (simp only: u_def v_def z_def)
  have "sin t + sin u + sin v + sin z = 0"
    unfolding cz sz cv sv cu su using assms by auto
  then show "sin t + sin (t + q) + sin (t + q + q) + sin (t + q + q + q) = 0"
    by (simp only: u_def v_def z_def)
qed

lemma period3_cos:
  fixes w :: real
  assumes "(cos (3 * w) = 0 \<and> sin (3 * w) = 1) \<or> (cos (3 * w) = - 1 \<and> sin (3 * w) = 0) \<or>
           (cos (3 * w) = 0 \<and> sin (3 * w) = - 1)"
  shows "cos (w * m) + cos (w * (m + 3)) + cos (w * (m + 6)) + cos (w * (m + 9)) = 0"
proof -
  have "w * (m + 3) = w * m + 3 * w" "w * (m + 6) = w * m + 3 * w + 3 * w"
    "w * (m + 9) = w * m + 3 * w + 3 * w + 3 * w"
    by (simp_all add: algebra_simps)
  then show ?thesis
    using quarter_turn(1) [OF assms, of "w * m"] by (simp only:)
qed

lemma period3_sin:
  fixes w :: real
  assumes "(cos (3 * w) = 0 \<and> sin (3 * w) = 1) \<or> (cos (3 * w) = - 1 \<and> sin (3 * w) = 0) \<or>
           (cos (3 * w) = 0 \<and> sin (3 * w) = - 1)"
  shows "sin (w * m) + sin (w * (m + 3)) + sin (w * (m + 6)) + sin (w * (m + 9)) = 0"
proof -
  have "w * (m + 3) = w * m + 3 * w" "w * (m + 6) = w * m + 3 * w + 3 * w"
    "w * (m + 9) = w * m + 3 * w + 3 * w + 3 * w"
    by (simp_all add: algebra_simps)
  then show ?thesis
    using quarter_turn(2) [OF assms, of "w * m"] by (simp only:)
qed

lemma turn1: "cos (3 * (2 * pi / real 12)) = 0 \<and> sin (3 * (2 * pi / real 12)) = 1"
  by simp

lemma turn2: "cos (3 * (2 * (2 * pi / real 12))) = - 1 \<and> sin (3 * (2 * (2 * pi / real 12))) = 0"
  by simp

lemma turn3: "cos (3 * (3 * (2 * pi / real 12))) = 0 \<and> sin (3 * (3 * (2 * pi / real 12))) = - 1"
proof -
  have "3 * (3 * (2 * pi / real 12)) = 3 / 2 * pi" by simp
  then show ?thesis by (simp only: cos_3over2_pi sin_3over2_pi)
qed

lemma upt_12: "[0..<12] = [0, 1, 2, 3, 4, 5, 6, 7, 8, 9, 10, 11 :: nat]"
  by code_simp

lemma period3_weighted:
  fixes w :: real
  assumes "(cos (3 * w) = 0 \<and> sin (3 * w) = 1) \<or> (cos (3 * w) = - 1 \<and> sin (3 * w) = 0) \<or>
           (cos (3 * w) = 0 \<and> sin (3 * w) = - 1)"
  shows "(\<Sum>x\<leftarrow>[0..<12]. (if x mod 3 = 0 then - 20 else 10) * cos (w * real x)) = 0"
    and "(\<Sum>x\<leftarrow>[0..<12]. (if x mod 3 = 0 then - 20 else 10) * sin (w * real x)) = 0"
proof -
  note c = period3_cos [OF assms, of 0] period3_cos [OF assms, of 1] period3_cos [OF assms, of 2]
  note s = period3_sin [OF assms, of 0] period3_sin [OF assms, of 1] period3_sin [OF assms, of 2]
  show "(\<Sum>x\<leftarrow>[0..<12]. (if x mod 3 = 0 then - 20 else 10) * cos (w * real x)) = 0"
    using c by (simp add: upt_12)
  show "(\<Sum>x\<leftarrow>[0..<12]. (if x mod 3 = 0 then - 20 else 10) * sin (w * real x)) = 0"
    using s by (simp add: upt_12)
qed

lemma hills_normal_equations:
  "(\<Sum>x\<leftarrow>[0..<12]. (if x mod 3 = 0 then - 20 else 10) *
       evaluate 12 [a0, a1, b1, a2, b2, a3, b3] (real x)) = 0"
proof -
  define w where "w = 2 * pi / real 12"
  define r :: "nat \<Rightarrow> real" where "r = (\<lambda>x. if x mod 3 = 0 then - 20 else 10)"
  have ev: "r x * evaluate 12 [a0, a1, b1, a2, b2, a3, b3] (real x) =
      a0 * r x +
      a1 * (r x * cos (w * real x)) + b1 * (r x * sin (w * real x)) +
      a2 * (r x * cos (2 * w * real x)) + b2 * (r x * sin (2 * w * real x)) +
      a3 * (r x * cos (3 * w * real x)) + b3 * (r x * sin (3 * w * real x))" for x
    by (simp add: evaluate_def fourier_curve_def Let_def w_def algebra_simps)
  have z0: "(\<Sum>x\<leftarrow>[0..<12]. r x) = 0"
    by (simp add: r_def upt_12)
  have t1: "(cos (3 * w) = 0 \<and> sin (3 * w) = 1) \<or> (cos (3 * w) = - 1 \<and> sin (3 * w) = 0) \<or>
           (cos (3 * w) = 0 \<and> sin (3 * w) = - 1)"
    using turn1 by (simp add: w_def)
  have t2: "(cos (3 * (2 * w)) = 0 \<and> sin (3 * (2 * w)) = 1) \<or>
           (cos (3 * (2 * w)) = - 1 \<and> sin (3 * (2 * w)) = 0) \<or>
           (cos (3 * (2 * w)) = 0 \<and> sin (3 * (2 * w)) = - 1)"
    using turn2 by (simp add: w_def)
  have t3: "(cos (3 * (3 * w)) = 0 \<and> sin (3 * (3 * w)) = 1) \<or>
           (cos (3 * (3 * w)) = - 1 \<and> sin (3 * (3 * w)) = 0) \<or>
           (cos (3 * (3 * w)) = 0 \<and> sin (3 * (3 * w)) = - 1)"
    using turn3 by (simp only: w_def) simp
  note z = period3_weighted [OF t1] period3_weighted [OF t2] period3_weighted [OF t3]
  have "(\<Sum>x\<leftarrow>[0..<12]. r x * evaluate 12 [a0, a1, b1, a2, b2, a3, b3] (real x)) =
      a0 * (\<Sum>x\<leftarrow>[0..<12]. r x) +
      a1 * (\<Sum>x\<leftarrow>[0..<12]. r x * cos (w * real x)) +
      b1 * (\<Sum>x\<leftarrow>[0..<12]. r x * sin (w * real x)) +
      a2 * (\<Sum>x\<leftarrow>[0..<12]. r x * cos (2 * w * real x)) +
      b2 * (\<Sum>x\<leftarrow>[0..<12]. r x * sin (2 * w * real x)) +
      a3 * (\<Sum>x\<leftarrow>[0..<12]. r x * cos (3 * w * real x)) +
      b3 * (\<Sum>x\<leftarrow>[0..<12]. r x * sin (3 * w * real x))"
    by (simp only: ev sum_list_addf sum_list_const_mult)
  also have "\<dots> = 0"
    using z z0 unfolding r_def by simp
  finally show ?thesis
    by (simp only: r_def)
qed

text \<open>
  Hence the sum of squares of any coefficient array is 2400 plus the squared distances of
  its curve from 30: the constant 30 is a least-squares fit, every least-squares fit takes
  the value 30 at the 12 columns, and for every one of them the adjustment returns a curve
  that fails the check.
\<close>

lemma hills_sum_squares:
  "sum_squares 12 hills_curve [a0, a1, b1, a2, b2, a3, b3] =
     2400 + (\<Sum>x\<leftarrow>[0..<12]. (evaluate 12 [a0, a1, b1, a2, b2, a3, b3] (real x) - 30)\<^sup>2)"
proof -
  define E where "E = (\<lambda>x :: nat. evaluate 12 [a0, a1, b1, a2, b2, a3, b3] (real x))"
  have k: "- 20 * E 0 + 10 * E 1 + 10 * E 2 - 20 * E 3 + 10 * E 4 + 10 * E 5
      - 20 * E 6 + 10 * E 7 + 10 * E 8 - 20 * E 9 + 10 * E 10 + 10 * E 11 = 0"
    using hills_normal_equations [of a0 a1 b1 a2 b2 a3 b3]
    by (simp add: upt_12 E_def)
  have "sum_squares 12 hills_curve [a0, a1, b1, a2, b2, a3, b3] =
     (10 - E 0)\<^sup>2 + (40 - E 1)\<^sup>2 + (40 - E 2)\<^sup>2 + (10 - E 3)\<^sup>2 + (40 - E 4)\<^sup>2 +
     (40 - E 5)\<^sup>2 + (10 - E 6)\<^sup>2 + (40 - E 7)\<^sup>2 + (40 - E 8)\<^sup>2 + (10 - E 9)\<^sup>2 +
     (40 - E 10)\<^sup>2 + (40 - E 11)\<^sup>2"
    by (simp add: sum_squares_def hills_curve_def E_def)
  also have "\<dots> =
     2400 - 2 * (- 20 * E 0 + 10 * E 1 + 10 * E 2 - 20 * E 3 + 10 * E 4 + 10 * E 5
      - 20 * E 6 + 10 * E 7 + 10 * E 8 - 20 * E 9 + 10 * E 10 + 10 * E 11) +
     ((E 0 - 30)\<^sup>2 + (E 1 - 30)\<^sup>2 + (E 2 - 30)\<^sup>2 + (E 3 - 30)\<^sup>2 + (E 4 - 30)\<^sup>2 +
      (E 5 - 30)\<^sup>2 + (E 6 - 30)\<^sup>2 + (E 7 - 30)\<^sup>2 + (E 8 - 30)\<^sup>2 + (E 9 - 30)\<^sup>2 +
      (E 10 - 30)\<^sup>2 + (E 11 - 30)\<^sup>2)"
    by (simp add: power2_eq_square algebra_simps)
  also have "\<dots> = 2400 + (\<Sum>x\<leftarrow>[0..<12]. (E x - 30)\<^sup>2)"
    unfolding k by (simp add: upt_12)
  finally show ?thesis
    by (simp only: E_def)
qed

lemma hills_constant_fit: "sum_squares 12 hills_curve [30, 0, 0, 0, 0, 0, 0] = 2400"
  by (simp add: sum_squares_def hills_curve_def evaluate_def fourier_curve_def)

lemma hills_least_squares:
  "sum_squares 12 hills_curve [30, 0, 0, 0, 0, 0, 0]
     \<le> sum_squares 12 hills_curve [a0, a1, b1, a2, b2, a3, b3]"
proof -
  have "0 \<le> (\<Sum>x\<leftarrow>[0..<12]. (evaluate 12 [a0, a1, b1, a2, b2, a3, b3] (real x) - 30)\<^sup>2)"
    by (rule sum_list_nonneg) auto
  then show ?thesis
    by (subst hills_constant_fit) (simp add: hills_sum_squares)
qed

lemma hills_best_fit_values:
  assumes "sum_squares 12 hills_curve [a0, a1, b1, a2, b2, a3, b3]
             \<le> sum_squares 12 hills_curve [30, 0, 0, 0, 0, 0, 0]"
    and "x < 12"
  shows "evaluate 12 [a0, a1, b1, a2, b2, a3, b3] (real x) = 30"
proof -
  let ?sq = "\<lambda>x :: nat. (evaluate 12 [a0, a1, b1, a2, b2, a3, b3] (real x) - 30)\<^sup>2"
  from assms(1) have "sum_squares 12 hills_curve [a0, a1, b1, a2, b2, a3, b3] \<le> 2400"
    by (simp only: hills_constant_fit)
  then have le: "(\<Sum>x\<leftarrow>[0..<12]. ?sq x) \<le> 0"
    by (simp add: hills_sum_squares)
  have "0 \<le> (\<Sum>x\<leftarrow>[0..<12]. ?sq x)"
    by (rule sum_list_nonneg) auto
  with le have "(\<Sum>x\<leftarrow>[0..<12]. ?sq x) = 0" by simp
  then have "\<forall>v\<in>set (map ?sq [0..<12]). v = 0"
    by (subst (asm) sum_list_nonneg_eq_0_iff) auto
  with assms(2) have "?sq x = 0" by simp
  then show ?thesis by simp
qed

lemma hills_every_best_fit_violates:
  assumes "sum_squares 12 hills_curve [a0, a1, b1, a2, b2, a3, b3]
             \<le> sum_squares 12 hills_curve [30, 0, 0, 0, 0, 0, 0]"
  shows "safe_boundary 12 hills_curve [a0, a1, b1, a2, b2, a3, b3] =
           Inr ([a0 - 15, a1, b1, a2, b2, a3, b3], False)"
proof -
  let ?p = "[a0, a1, b1, a2, b2, a3, b3]"
  have ev: "evaluate 12 ?p (real x) = 30" if "x < 12" for x
    using assms that by (rule hills_best_fit_values)
  have e: "evaluate 12 ?p 0 = 30" "evaluate 12 ?p 1 = 30" "evaluate 12 ?p 2 = 30"
    "evaluate 12 ?p 3 = 30" "evaluate 12 ?p 4 = 30" "evaluate 12 ?p 5 = 30"
    "evaluate 12 ?p 6 = 30" "evaluate 12 ?p 7 = 30" "evaluate 12 ?p 8 = 30"
    "evaluate 12 ?p 9 = 30" "evaluate 12 ?p 10 = 30" "evaluate 12 ?p 11 = 30"
    using ev [of 0] ev [of 1] ev [of 2] ev [of 3] ev [of 4] ev [of 5] ev [of 6] ev [of 7]
      ev [of 8] ev [of 9] ev [of 10] ev [of 11] by simp_all
  have r: "Max (residuals 12 ?p hills_curve) = 10"
    by (simp add: residuals_def hills_curve_def e)
  have "evaluate 12 (?p[0 := ?p ! 0 - (10 + 5)]) (real 0) = evaluate 12 ?p (real 0) - (10 + 5)"
    by (rule evaluate_shift) simp
  then have s: "evaluate 12 [a0 - 15, a1, b1, a2, b2, a3, b3] 0 = 15"
    using e(1) by simp
  have "\<not> (\<forall>p\<in>set hills_curve.
      evaluate 12 [a0 - 15, a1, b1, a2, b2, a3, b3] (real (fst p)) \<le> real (snd p))"
    using s by (simp add: hills_curve_def)
  then show ?thesis
    using safe_boundary_value [of hills_curve ?p 12] r
    by (simp add: hills_curve_def)
qed

text \<open>
  The image of 12 columns and 42 rows whose opaque part starts at row 10 in every third
  column and at row 40 elsewhere has the boundary \<open>hills_curve\<close>.
\<close>

lemma hills_extracted:
  "extract_terrain_curve 12 42
     (\<lambda>(x, y). if y < (if x mod 3 = 0 then 10 else 40) then [0, 0, 0, 0] else [0, 0, 0, 255])
   = [(0, 10), (1, 40), (2, 40), (3, 10), (4, 40), (5, 40),
      (6, 10), (7, 40), (8, 40), (9, 10), (10, 40), (11, 40)]"
  by code_simp

text \<open>
  C1. The claim is that the shifted curve is at or below every boundary point. The script
  shifts by the largest value of \<open>y\<^sub>i - fitted\<^sub>i\<close>, where the inequality it then prints
  needs the largest value of \<open>fitted\<^sub>i - y\<^sub>i\<close>. On the boundary of the image above,
  fitted by the constant 30 (its least-squares fit), the largest residual is 10, the
  margin 15, and the shifted curve lies at 15: greater than the boundary value 10 of
  column 0.
\<close>

theorem envelope_guarantee_fails:
  "safe_boundary 12
     (extract_terrain_curve 12 42
        (\<lambda>(x, y). if y < (if x mod 3 = 0 then 10 else 40) then [0, 0, 0, 0] else [0, 0, 0, 255]))
     [30, 0, 0, 0, 0, 0, 0]
   = Inr ([15, 0, 0, 0, 0, 0, 0], False) \<and>
   (0, 10) \<in> set (extract_terrain_curve 12 42
        (\<lambda>(x, y). if y < (if x mod 3 = 0 then 10 else 40) then [0, 0, 0, 0] else [0, 0, 0, 255])) \<and>
   evaluate 12 [15, 0, 0, 0, 0, 0, 0] (real 0) = 15 \<and> (15 :: real) > real 10"
  unfolding hills_extracted
  by (simp add: safe_boundary_def fourier_curve_star_def fourier_curve_def np_max_def
      evaluate_def Let_def)

end
